theory Spec2Isabelle
  imports Complex_Main "HOL-Library.Sublist"
begin

section \<open>Python strings\<close>

text \<open>
  A Python \<open>str\<close> is modelled as a \<open>string\<close>, each \<open>char\<close> standing for one code
  point below 256. \<open>str.isspace\<close>, \<open>str.lower\<close>, \<open>str.strip\<close>, the operator \<open>in\<close>
  and \<open>str.replace\<close> are written out for that range.
\<close>

definition isspace :: "char \<Rightarrow> bool" where
  "isspace c =
     (let n = (of_char c :: nat)
      in (9 \<le> n \<and> n \<le> 13) \<or> (28 \<le> n \<and> n \<le> 32) \<or> n = 133 \<or> n = 160)"

definition lower_char :: "char \<Rightarrow> char" where
  "lower_char c =
     (let n = (of_char c :: nat)
      in if (65 \<le> n \<and> n \<le> 90) \<or> (192 \<le> n \<and> n \<le> 222 \<and> n \<noteq> 215)
         then char_of (n + 32) else c)"

definition lower :: "string \<Rightarrow> string" where
  "lower s = map lower_char s"

definition strip :: "string \<Rightarrow> string" where
  "strip s = rev (dropWhile isspace (rev (dropWhile isspace s)))"

text \<open>\<open>w in s\<close> for strings: \<open>w\<close> occurs in \<open>s\<close> as a contiguous run.\<close>

fun str_in :: "string \<Rightarrow> string \<Rightarrow> bool" where
  "str_in w [] = (w = [])"
| "str_in w (c # cs) = (prefix w (c # cs) \<or> str_in w cs)"

text \<open>
  \<open>s.replace(old, new)\<close>: occurrences of \<open>old\<close> are replaced from left to right
  without overlap; an empty \<open>old\<close> matches before every character and at the end.
\<close>

function replace_nonempty :: "string \<Rightarrow> string \<Rightarrow> string \<Rightarrow> string" where
  "replace_nonempty old new [] = []"
| "replace_nonempty old new (c # cs) =
     (if old \<noteq> [] \<and> prefix old (c # cs)
      then new @ replace_nonempty old new (drop (length old) (c # cs))
      else c # replace_nonempty old new cs)"
  by pat_completeness auto
termination
  by (relation "measure (\<lambda>(old, new, s). length s)") auto

definition replace :: "string \<Rightarrow> string \<Rightarrow> string \<Rightarrow> string" where
  "replace old new s =
     (if old = [] then new @ concat (map (\<lambda>c. c # new) s)
      else replace_nonempty old new s)"

section \<open>Wake word detector\<close>

text \<open>
  The fields of \<open>WakeWordDetector\<close>. Times are the seconds returned by \<open>time.time()\<close>,
  taken as real numbers.
\<close>

record WakeWordDetector =
  wake_word :: string
  threshold :: real
  is_awake :: bool
  last_wake_time :: real
  timeout :: real

text \<open>\<open>WakeWordDetector.__init__\<close>; \<open>tmo\<close> is the global \<open>WAKE_WORD_TIMEOUT\<close>.\<close>

definition WakeWordDetector_init :: "real \<Rightarrow> string \<Rightarrow> real \<Rightarrow> WakeWordDetector" where
  "WakeWordDetector_init tmo w th =
     \<lparr>wake_word = lower w, threshold = th, is_awake = False, last_wake_time = 0,
      timeout = tmo\<rparr>"

text \<open>
  \<open>WakeWordDetector.check\<close>. Each path through the method reads the clock at most once;
  \<open>now\<close> is the value read. The result is the returned flag and the detector afterwards.
\<close>

definition check :: "real \<Rightarrow> string \<Rightarrow> WakeWordDetector \<Rightarrow> bool \<times> WakeWordDetector" where
  "check now text d =
     (let text_lower = strip (lower text)
      in if str_in (wake_word d) text_lower
         then (True, d\<lparr>is_awake := True, last_wake_time := now\<rparr>)
         else if is_awake d
         then (if now - last_wake_time d < timeout d
               then (True, d)
               else (False, d\<lparr>is_awake := False\<rparr>))
         else (False, d))"

definition reset :: "WakeWordDetector \<Rightarrow> WakeWordDetector" where
  "reset d = d\<lparr>is_awake := False, last_wake_time := 0\<rparr>"

section \<open>Configuration and external collaborators\<close>

text \<open>The entries of \<open>CONFIG\<close> that the modelled code reads.\<close>

record config =
  cfg_phrase :: string
  cfg_timeout :: real
  cfg_threshold :: real
  cfg_sample_rate :: real
  cfg_chunk_duration_seconds :: real
  cfg_rms_threshold :: real
  cfg_peak_threshold :: real
  cfg_noise_gate_threshold :: real
  cfg_max_restart_attempts :: int
  cfg_restart_delay_seconds :: real

text \<open>The defaults of \<open>load_config\<close>.\<close>

definition default_config :: config where
  "default_config =
     \<lparr>cfg_phrase = ''assistant'', cfg_timeout = 10, cfg_threshold = 7 / 10,
      cfg_sample_rate = 16000, cfg_chunk_duration_seconds = 3,
      cfg_rms_threshold = 15 / 1000, cfg_peak_threshold = 4 / 100,
      cfg_noise_gate_threshold = 1 / 100,
      cfg_max_restart_attempts = 3, cfg_restart_delay_seconds = 1\<rparr>"

definition WAKE_WORD :: "config \<Rightarrow> string" where
  "WAKE_WORD cfg = cfg_phrase cfg"

definition WAKE_WORD_TIMEOUT :: "config \<Rightarrow> real" where
  "WAKE_WORD_TIMEOUT cfg = cfg_timeout cfg"

text \<open>
  What the engines outside the program answer: the Piper voice yields the audio
  segments of a text or raises, the Whisper model yields the segment texts of a buffer
  or raises, \<open>pyjokes.get_joke\<close> and the formatting of the current time yield a string
  or raise (\<open>None\<close>).
\<close>

datatype synth_outcome = Audio "real list list" | Synth_error

datatype transcribe_outcome = Segments "string list" | Transcribe_error

record engines =
  synthesize :: "string \<Rightarrow> synth_outcome"
  transcribe :: "real list \<Rightarrow> transcribe_outcome"
  get_joke :: "string option"
  time_str :: "string option"

text \<open>
  How a call ends: it returns, it raises, or it never returns because it waits for
  something that will not happen. Each carries the state reached.
\<close>

datatype 'a outcome = Returns 'a | Raises 'a | Blocks 'a

section \<open>Audio filters\<close>

text \<open>
  A chunk is an array of float32 samples, each a real number. \<open>audio ** 2\<close>, \<open>np.mean\<close>
  and \<open>np.sqrt\<close> compute in float32 and round; what they return is numpy's to say:
  the square of a sample, the mean of an array, the root of a number. \<open>np.abs\<close>,
  \<open>np.max\<close>, the comparisons and the product with a mask do not round.
\<close>

record numpy =
  np_square :: "real \<Rightarrow> real"
  np_mean :: "real list \<Rightarrow> real"
  np_sqrt :: "real \<Rightarrow> real"


text \<open>An argument left at \<open>None\<close> reads the configured value.\<close>

definition or_config :: "real option \<Rightarrow> real \<Rightarrow> real" where
  "or_config arg configured = (case arg of None \<Rightarrow> configured | Some v \<Rightarrow> v)"

definition is_significant_audio ::
  "config \<Rightarrow> numpy \<Rightarrow> real list \<Rightarrow> real option \<Rightarrow> real option \<Rightarrow> bool" where
  "is_significant_audio cfg np audio rms_threshold peak_threshold =
     (let rms_t = or_config rms_threshold (cfg_rms_threshold cfg);
          peak_t = or_config peak_threshold (cfg_peak_threshold cfg)
      in case audio of
           [] \<Rightarrow> False
         | x # xs \<Rightarrow>
             (let rms = np_sqrt np (np_mean np (map (np_square np) audio));
                  peak = fold max (map abs xs) \<bar>x\<bar>
              in rms > rms_t \<or> peak > peak_t))"

definition noise_gate :: "config \<Rightarrow> real list \<Rightarrow> real option \<Rightarrow> real list" where
  "noise_gate cfg audio gate_threshold =
     (let t = or_config gate_threshold (cfg_noise_gate_threshold cfg);
          mask = map (\<lambda>v. \<bar>v\<bar> > t) audio
      in map2 (\<lambda>v m. v * of_bool m) audio mask)"

section \<open>Speech synthesizer\<close>

text \<open>
  The worker thread is at the head of its loop, inside \<open>speech_queue.get\<close>, inside
  \<open>_speak_blocking\<close> for a dequeued text, or gone.
\<close>

datatype worker = At_loop_head | In_get | Speaking string | Exited

text \<open>
  \<open>speech_queue\<close> holds the queued items, \<open>None\<close> being the shutdown signal, and
  \<open>unfinished_tasks\<close> is the queue's counter that \<open>join\<close> waits for. \<open>speech_log\<close>
  records every run of \<open>_speak_blocking\<close>: the text, what the voice produced, and the
  value of \<open>is_speaking\<close> while it ran. The lock and the cached sample rate are left out.
\<close>

record PiperTTS =
  speech_queue :: "string option list"
  unfinished_tasks :: nat
  is_speaking :: bool
  shutdown_flag :: bool
  speech_thread :: worker
  speech_log :: "(string \<times> synth_outcome \<times> bool) list"

definition PiperTTS_init :: PiperTTS where
  "PiperTTS_init =
     \<lparr>speech_queue = [], unfinished_tasks = 0, is_speaking = False, shutdown_flag = False,
      speech_thread = At_loop_head, speech_log = []\<rparr>"

text \<open>A logged run played audio when the voice produced at least one segment.\<close>

fun playback :: "string \<times> synth_outcome \<times> bool \<Rightarrow> bool" where
  "playback (text, Audio segs, flag) = (segs \<noteq> [])"
| "playback (text, Synth_error, flag) = False"

text \<open>\<open>_speak_blocking\<close> catches every failure of the voice and of the device.\<close>

definition speak_blocking :: "engines \<Rightarrow> string \<Rightarrow> PiperTTS \<Rightarrow> PiperTTS" where
  "speak_blocking eng text t =
     t\<lparr>speech_log := speech_log t @ [(text, synthesize eng text, is_speaking t)]\<rparr>"

definition queue_put :: "string option \<Rightarrow> PiperTTS \<Rightarrow> PiperTTS" where
  "queue_put item t =
     t\<lparr>speech_queue := speech_queue t @ [item], unfinished_tasks := unfinished_tasks t + 1\<rparr>"

definition speak :: "engines \<Rightarrow> string \<Rightarrow> bool \<Rightarrow> PiperTTS \<Rightarrow> PiperTTS" where
  "speak eng text blocking t =
     (if blocking then speak_blocking eng text t else queue_put (Some text) t)"

text \<open>
  One step of \<open>_speech_worker\<close>: the test of the loop, the \<open>get\<close> (an empty queue times
  out and the loop continues; \<open>None\<close> breaks; a text sets \<open>is_speaking\<close>), or the
  synthesis of the dequeued text followed by clearing the flag and \<open>task_done\<close>, which
  raises when nothing is unfinished, the handler clearing the flag again.
\<close>

definition speech_worker_step :: "engines \<Rightarrow> PiperTTS \<Rightarrow> PiperTTS" where
  "speech_worker_step eng t =
     (case speech_thread t of
        Exited \<Rightarrow> t
      | At_loop_head \<Rightarrow>
          (if shutdown_flag t then t\<lparr>speech_thread := Exited\<rparr>
           else t\<lparr>speech_thread := In_get\<rparr>)
      | In_get \<Rightarrow>
          (case speech_queue t of
             [] \<Rightarrow> t\<lparr>speech_thread := At_loop_head\<rparr>
           | None # q \<Rightarrow> t\<lparr>speech_queue := q, speech_thread := Exited\<rparr>
           | Some text # q \<Rightarrow>
               t\<lparr>speech_queue := q, is_speaking := True, speech_thread := Speaking text\<rparr>)
      | Speaking text \<Rightarrow>
          (let t1 = (speak_blocking eng text t)\<lparr>is_speaking := False\<rparr>
           in if unfinished_tasks t1 = 0
              then t1\<lparr>is_speaking := False, speech_thread := At_loop_head\<rparr>
              else t1\<lparr>unfinished_tasks := unfinished_tasks t1 - 1,
                      speech_thread := At_loop_head\<rparr>))"

text \<open>
  A caller that waits for a condition on the synthesizer: only the worker moves
  meanwhile. The wait never ends when the worker is gone, or idle on an empty queue.
\<close>

fun worker_weight :: "worker \<Rightarrow> nat" where
  "worker_weight (Speaking text) = 4"
| "worker_weight At_loop_head = 3"
| "worker_weight In_get = 2"
| "worker_weight Exited = 0"

function await :: "(PiperTTS \<Rightarrow> bool) \<Rightarrow> engines \<Rightarrow> PiperTTS \<Rightarrow> PiperTTS outcome" where
  "await c eng t =
     (if c t then Returns t
      else case speech_thread t of
             Exited \<Rightarrow> Blocks t
           | Speaking text \<Rightarrow> await c eng (speech_worker_step eng t)
           | _ \<Rightarrow> if speech_queue t = [] then Blocks t
                  else await c eng (speech_worker_step eng t))"
  by pat_completeness auto
termination
  by (relation "measure (\<lambda>(c, eng, t). 3 * length (speech_queue t) + worker_weight (speech_thread t))")
     (auto simp: speech_worker_step_def speak_blocking_def Let_def
           split: list.splits option.splits)

text \<open>\<open>wait_until_done\<close>: \<open>speech_queue.join()\<close>, then the loop on \<open>is_speaking\<close>.\<close>

definition wait_until_done :: "engines \<Rightarrow> PiperTTS \<Rightarrow> PiperTTS outcome" where
  "wait_until_done eng t =
     (case await (\<lambda>t. unfinished_tasks t = 0) eng t of
        Returns t1 \<Rightarrow> await (\<lambda>t. \<not> is_speaking t) eng t1
      | other \<Rightarrow> other)"

text \<open>
  \<open>shutdown\<close> sets the flag and queues the signal; the bounded \<open>join\<close> of the thread
  changes nothing by itself, the worker's steps during it are steps like any other.
\<close>

definition shutdown :: "PiperTTS \<Rightarrow> PiperTTS" where
  "shutdown t = queue_put None (t\<lparr>shutdown_flag := True\<rparr>)"

section \<open>Voice assistant\<close>

text \<open>
  What the run loop asks for, in the order it asks: the significance test, the noise
  gate, a transcription, a sleep of the given length.
\<close>

datatype event = Call_is_significant_audio | Call_noise_gate | Call_transcribe_audio | Sleep real

record VoiceAssistant =
  tts :: PiperTTS
  wake_word_detector :: WakeWordDetector
  keep_running :: bool
  restart_count :: int
  max_restarts :: int
  trace :: "event list"

definition VoiceAssistant_init :: "config \<Rightarrow> VoiceAssistant" where
  "VoiceAssistant_init cfg =
     \<lparr>tts = PiperTTS_init,
      wake_word_detector =
        WakeWordDetector_init (WAKE_WORD_TIMEOUT cfg) (WAKE_WORD cfg) (cfg_threshold cfg),
      keep_running = True, restart_count = 0,
      max_restarts = cfg_max_restart_attempts cfg, trace = []\<rparr>"

text \<open>\<open>self.tts.speak(text)\<close>, with the default \<open>blocking=False\<close>.\<close>

definition tts_speak :: "engines \<Rightarrow> string \<Rightarrow> VoiceAssistant \<Rightarrow> VoiceAssistant" where
  "tts_speak eng text a = a\<lparr>tts := speak eng text False (tts a)\<rparr>"

subsection \<open>Skills\<close>

type_synonym skill = "VoiceAssistant \<Rightarrow> VoiceAssistant outcome"

definition skill_tell_joke :: "engines \<Rightarrow> skill" where
  "skill_tell_joke eng a =
     (case get_joke eng of
        Some joke \<Rightarrow> Returns (tts_speak eng joke a)
      | None \<Rightarrow> Returns (tts_speak eng ''Sorry, I couldn't think of a joke right now.'' a))"

definition skill_tell_time :: "engines \<Rightarrow> skill" where
  "skill_tell_time eng a =
     (case time_str eng of
        Some s \<Rightarrow> Returns (tts_speak eng s a)
      | None \<Rightarrow> Returns (tts_speak eng ''Sorry, I couldn't get the current time.'' a))"

definition skill_sleep :: "config \<Rightarrow> engines \<Rightarrow> skill" where
  "skill_sleep cfg eng a =
     Returns (tts_speak eng (''Going to sleep. Say '' @ WAKE_WORD cfg @ '' to wake me up.'')
                (a\<lparr>wake_word_detector := reset (wake_word_detector a)\<rparr>))"

definition farewell :: string where
  "farewell = ''Goodbye! Shutting down now.''"

definition skill_exit :: "engines \<Rightarrow> skill" where
  "skill_exit eng a =
     (let a1 = tts_speak eng farewell a
      in case wait_until_done eng (tts a1) of
           Returns t \<Rightarrow> Returns (a1\<lparr>tts := t, keep_running := False\<rparr>)
         | Raises t \<Rightarrow> Raises (a1\<lparr>tts := t\<rparr>)
         | Blocks t \<Rightarrow> Blocks (a1\<lparr>tts := t\<rparr>))"

text \<open>The table built by \<open>VoiceAssistant.__init__\<close>, in insertion order.\<close>

definition command_map :: "config \<Rightarrow> engines \<Rightarrow> (string \<times> skill) list" where
  "command_map cfg eng =
     [(''joke'', skill_tell_joke eng),
      (''time'', skill_tell_time eng),
      (''date'', skill_tell_time eng),
      (''stop'', skill_exit eng),
      (''exit'', skill_exit eng),
      (''goodbye'', skill_exit eng),
      (''sleep'', skill_sleep cfg eng)]"

subsection \<open>Command handling\<close>

text \<open>
  The loop over the table that ends \<open>handle_command\<close>, with the fallback after it.
\<close>

fun dispatch :: "engines \<Rightarrow> (string \<times> skill) list \<Rightarrow> string \<Rightarrow> skill" where
  "dispatch eng [] command_text a =
     Returns (tts_speak eng
       (''I heard you say '' @ command_text @ '', but I don't know what to do with that yet.'') a)"
| "dispatch eng ((trigger, skill_func) # rest) command_text a =
     (if str_in trigger command_text
      then (case skill_func a of
              Returns a' \<Rightarrow> Returns a'
            | Raises a' \<Rightarrow> Returns (tts_speak eng ''Sorry, something went wrong.'' a')
            | Blocks a' \<Rightarrow> Blocks a')
      else dispatch eng rest command_text a)"

definition handle_command ::
  "config \<Rightarrow> engines \<Rightarrow> (string \<times> skill) list \<Rightarrow> real \<Rightarrow> string \<Rightarrow> skill" where
  "handle_command cfg eng cmap now text0 a =
     (let text = strip (lower text0)
      in if text = [] then Returns a
         else
           (let (ok, d) = check now text (wake_word_detector a);
                a1 = a\<lparr>wake_word_detector := d\<rparr>
            in if \<not> ok then Returns a1
               else
                 (let command_text = strip (replace (WAKE_WORD cfg) [] text)
                  in if command_text = [] \<and> text \<noteq> WAKE_WORD cfg then Returns a1
                     else if command_text = [] \<or> command_text = WAKE_WORD cfg
                     then Returns (tts_speak eng ''Yes? I'm listening.'' a1)
                     else dispatch eng cmap command_text a1)))"

subsection \<open>Run loop\<close>

definition transcribe_audio :: "engines \<Rightarrow> real list \<Rightarrow> string list" where
  "transcribe_audio eng audio_buffer =
     (case transcribe eng audio_buffer of Segments segs \<Rightarrow> segs | Transcribe_error \<Rightarrow> [])"

text \<open>
  The loop over the segments of one transcription; \<open>clock i\<close> is the time read while
  segment \<open>i\<close> is handled.
\<close>

fun handle_segments ::
  "config \<Rightarrow> engines \<Rightarrow> (string \<times> skill) list \<Rightarrow> (nat \<Rightarrow> real) \<Rightarrow> nat \<Rightarrow> string list \<Rightarrow> skill" where
  "handle_segments cfg eng cmap clock i [] a = Returns a"
| "handle_segments cfg eng cmap clock i (seg # segs) a =
     (let text = strip seg
      in if text \<noteq> []
         then (case handle_command cfg eng cmap (clock i) text a of
                 Returns a' \<Rightarrow> handle_segments cfg eng cmap clock (Suc i) segs a'
               | other \<Rightarrow> other)
         else handle_segments cfg eng cmap clock (Suc i) segs a)"

text \<open>
  What \<open>audio_q.get\<close> and the concatenation give in one iteration: nothing within the
  timeout, a block of samples, or a failure other than \<open>queue.Empty\<close>.
\<close>

datatype audio_get = Queue_empty | Block "real list" | Fault

text \<open>
  One iteration ends with the loop going on, with the exception raised again, or
  never. The second component is \<open>audio_buffer\<close>.
\<close>

datatype iteration = Continue VoiceAssistant "real list" | Reraise VoiceAssistant "real list"
  | Hang VoiceAssistant

definition CHUNK_SIZE_SAMPLES :: "config \<Rightarrow> real" where
  "CHUNK_SIZE_SAMPLES cfg = cfg_sample_rate cfg * cfg_chunk_duration_seconds cfg"

definition log_event :: "event \<Rightarrow> VoiceAssistant \<Rightarrow> VoiceAssistant" where
  "log_event e a = a\<lparr>trace := trace a @ [e]\<rparr>"

text \<open>The handler \<open>except Exception\<close> of the loop body.\<close>

definition recover :: "config \<Rightarrow> VoiceAssistant \<Rightarrow> real list \<Rightarrow> iteration" where
  "recover cfg a audio_buffer =
     (if restart_count a < max_restarts a
      then Continue (log_event (Sleep (cfg_restart_delay_seconds cfg))
                      (a\<lparr>restart_count := restart_count a + 1\<rparr>)) audio_buffer
      else Reraise a audio_buffer)"

definition listen_iteration ::
  "config \<Rightarrow> numpy \<Rightarrow> engines \<Rightarrow> (string \<times> skill) list \<Rightarrow> (nat \<Rightarrow> real) \<Rightarrow> audio_get
     \<Rightarrow> VoiceAssistant \<Rightarrow> real list \<Rightarrow> iteration" where
  "listen_iteration cfg np eng cmap clock got a buf =
     (case got of
        Queue_empty \<Rightarrow> Continue a buf
      | Fault \<Rightarrow> recover cfg a buf
      | Block data \<Rightarrow>
          (let audio_buffer = buf @ data
           in if real (length audio_buffer) \<ge> CHUNK_SIZE_SAMPLES cfg
              then
                (let a1 = log_event Call_is_significant_audio a
                 in if \<not> is_significant_audio cfg np audio_buffer None None
                    then Continue a1 []
                    else
                      (let a2 = log_event Call_noise_gate a1;
                           gated = noise_gate cfg audio_buffer None
                       in if \<not> is_speaking (tts a2)
                          then
                            (let a3 = log_event Call_transcribe_audio a2;
                                 segments = transcribe_audio eng gated
                             in case handle_segments cfg eng cmap clock 0 segments a3 of
                                  Returns a4 \<Rightarrow> Continue a4 []
                                | Raises a4 \<Rightarrow> recover cfg a4 gated
                                | Blocks a4 \<Rightarrow> Hang a4)
                          else Continue a2 []))
              else Continue a audio_buffer))"

text \<open>
  The loop runs against a schedule: an iteration of the run loop with what it
  receives, a step of the speech worker, or a keyboard interrupt.
\<close>

datatype tick = Supervisor audio_get "nat \<Rightarrow> real" | Worker_step | Interrupt

datatype listen_result = Stopped VoiceAssistant | Fatal_error VoiceAssistant
  | Never_returns VoiceAssistant | Still_running VoiceAssistant "real list"

definition cleanup :: "VoiceAssistant \<Rightarrow> VoiceAssistant" where
  "cleanup a = a\<lparr>tts := shutdown (tts a)\<rparr>"

fun listen_loop ::
  "config \<Rightarrow> numpy \<Rightarrow> engines \<Rightarrow> (string \<times> skill) list \<Rightarrow> tick list \<Rightarrow> VoiceAssistant
     \<Rightarrow> real list \<Rightarrow> listen_result" where
  "listen_loop cfg np eng cmap [] a buf = Still_running a buf"
| "listen_loop cfg np eng cmap (Worker_step # ticks) a buf =
     listen_loop cfg np eng cmap ticks (a\<lparr>tts := speech_worker_step eng (tts a)\<rparr>) buf"
| "listen_loop cfg np eng cmap (Interrupt # ticks) a buf =
     Stopped (cleanup (a\<lparr>keep_running := False\<rparr>))"
| "listen_loop cfg np eng cmap (Supervisor got clock # ticks) a buf =
     (if \<not> keep_running a then Stopped (cleanup a)
      else case listen_iteration cfg np eng cmap clock got a buf of
             Continue a' buf' \<Rightarrow> listen_loop cfg np eng cmap ticks a' buf'
           | Reraise a' buf' \<Rightarrow> Fatal_error (cleanup a')
           | Hang a' \<Rightarrow> Never_returns a')"

definition listen ::
  "config \<Rightarrow> numpy \<Rightarrow> engines \<Rightarrow> (string \<times> skill) list \<Rightarrow> tick list \<Rightarrow> VoiceAssistant
     \<Rightarrow> listen_result" where
  "listen cfg np eng cmap ticks a =
     listen_loop cfg np eng cmap ticks
       (tts_speak eng (''Assistant initialized. Say '' @ WAKE_WORD cfg @ '' to activate me.'') a) []"

section \<open>Example engines\<close>

text \<open>
  Engines for the examples: a voice that produces one segment for every text, a
  recognizer that hears one sentence, a joke and a time. The failing ones raise.
\<close>

definition example_engines :: engines where
  "example_engines =
     \<lparr>synthesize = (\<lambda>text. Audio [[1 / 2]]),
      transcribe = (\<lambda>audio. Segments [''Assistant, what time is it?'']),
      get_joke = Some ''Knock knock.'',
      time_str = Some ''It is 10:30 AM, on Monday, May 05.''\<rparr>"


definition example_clock :: "nat \<Rightarrow> real" where
  "example_clock i = 100 + real i"

text \<open>
  Arithmetic without rounding. On the samples of the examples, 0 and 1/2, float32
  arithmetic returns the same: every square, sum, mean and root there is a float32
  number.
\<close>

definition exact_arithmetic :: numpy where
  "exact_arithmetic =
     \<lparr>np_square = (\<lambda>v. v ^ 2),
      np_mean = (\<lambda>xs. sum_list xs / real (length xs)),
      np_sqrt = sqrt\<rparr>"

text \<open>A configuration whose chunks are two samples long.\<close>

definition short_chunk_config :: config where
  "short_chunk_config = default_config\<lparr>cfg_sample_rate := 1, cfg_chunk_duration_seconds := 2\<rparr>"

text \<open>An assistant whose worker is in the middle of speaking.\<close>

definition speaking_assistant :: VoiceAssistant where
  "speaking_assistant =
     (VoiceAssistant_init short_chunk_config)
       \<lparr>tts := PiperTTS_init\<lparr>unfinished_tasks := 1, is_speaking := True,
                               speech_thread := Speaking ''Knock knock.''\<rparr>\<rparr>"

text \<open>How many transcriptions the run loop has asked for.\<close>

definition transcription_count :: "VoiceAssistant \<Rightarrow> nat" where
  "transcription_count a = length (filter (\<lambda>e. e = Call_transcribe_audio) (trace a))"

section \<open>States of the synthesizer\<close>

text \<open>The text the worker is synthesizing, if any.\<close>

fun in_flight :: "worker \<Rightarrow> string list" where
  "in_flight (Speaking text) = [text]"
| "in_flight w = []"

text \<open>
  The synthesizer in service: not shut down, the worker alive, no shutdown signal
  queued, the counter of the queue equal to the number of requests queued or in
  flight, and \<open>is_speaking\<close> set exactly while a request is in flight.
\<close>

definition tts_ok :: "PiperTTS \<Rightarrow> bool" where
  "tts_ok t \<longleftrightarrow>
     \<not> shutdown_flag t \<and> speech_thread t \<noteq> Exited \<and> None \<notin> set (speech_queue t)
     \<and> unfinished_tasks t = length (speech_queue t) + length (in_flight (speech_thread t))
     \<and> (is_speaking t \<longleftrightarrow> in_flight (speech_thread t) \<noteq> [])"

text \<open>
  The synthesizer after the worker has gone through everything queued and in flight.
\<close>

definition drained :: "engines \<Rightarrow> PiperTTS \<Rightarrow> PiperTTS" where
  "drained eng t =
     t\<lparr>speech_queue := [], unfinished_tasks := 0, is_speaking := False,
       speech_thread := At_loop_head,
       speech_log := speech_log t @
         map (\<lambda>x. (x, synthesize eng x, True))
           (in_flight (speech_thread t) @ map the (speech_queue t))\<rparr>"

text \<open>
  The synthesizer after \<open>shutdown\<close>: the flag is set and a worker inside \<open>get\<close> has the
  shutdown signal before it in the queue.
\<close>

definition shut_down :: "PiperTTS \<Rightarrow> bool" where
  "shut_down t \<longleftrightarrow>
     shutdown_flag t \<and> (speech_thread t = In_get \<longrightarrow> None \<in> set (speech_queue t))"

text \<open>
  A request queued after \<open>shutdown\<close>: it is the last of the queue, behind the shutdown
  signal that a worker inside \<open>get\<close> meets first.
\<close>

definition stranded :: "string \<Rightarrow> PiperTTS \<Rightarrow> bool" where
  "stranded text t \<longleftrightarrow>
     shutdown_flag t \<and> speech_queue t \<noteq> [] \<and> last (speech_queue t) = Some text
     \<and> (speech_thread t = In_get \<longrightarrow> None \<in> set (butlast (speech_queue t)))"

text \<open>The runs of \<open>_speak_blocking\<close> the worker may still add to the log after shutdown.\<close>

fun credit :: "worker \<Rightarrow> nat" where
  "credit (Speaking text) = 1"
| "credit In_get = 1"
| "credit w = 0"

section \<open>Facts about the string operations\<close>

lemma str_in_sublist: "str_in w s = sublist w s"
  by (induction s) (auto simp: sublist_Cons_right)

lemma dropWhile_append_hd:
  "xs \<noteq> [] \<Longrightarrow> \<not> P (hd xs) \<Longrightarrow> dropWhile P (ys @ xs @ zs) = dropWhile P ys @ xs @ zs"
  by (induction ys) (auto simp: neq_Nil_conv)

lemma strip_append_middle:
  assumes "w \<noteq> []" "\<not> isspace (hd w)" "\<not> isspace (last w)"
  shows "\<exists>ps' ss'. strip (ps @ w @ ss) = ps' @ w @ ss'"
proof -
  have 1: "dropWhile isspace (ps @ w @ ss) = dropWhile isspace ps @ w @ ss"
    using assms by (simp add: dropWhile_append_hd)
  have rw: "rev w \<noteq> []" "\<not> isspace (hd (rev w))" using assms by (simp_all add: hd_rev)
  have 2: "dropWhile isspace (rev ss @ rev w @ r) = dropWhile isspace (rev ss) @ rev w @ r" for r
    using rw by (rule dropWhile_append_hd)
  have "strip (ps @ w @ ss) = rev (dropWhile isspace (rev ss @ rev w @ rev (dropWhile isspace ps)))"
    by (simp add: strip_def 1)
  also have "\<dots> = dropWhile isspace ps @ w @ rev (dropWhile isspace (rev ss))"
    by (simp add: 2)
  finally show ?thesis by blast
qed

lemma strip_is_sublist: "sublist (strip s) s"
proof -
  have a: "suffix (dropWhile isspace s) s" by (rule suffix_dropWhile)
  have "suffix (dropWhile isspace (rev (dropWhile isspace s))) (rev (dropWhile isspace s))"
    by (rule suffix_dropWhile)
  then have "prefix (strip s) (dropWhile isspace s)"
    unfolding strip_def by (simp add: suffix_to_prefix)
  with a show ?thesis
    by (meson prefix_imp_sublist suffix_imp_sublist sublist_order.order_trans)
qed

text \<open>
  Stripping the text changes nothing for a phrase that neither starts nor ends with
  white space, such as the default \<open>assistant\<close>.
\<close>

lemma str_in_strip:
  assumes "w \<noteq> []" "\<not> isspace (hd w)" "\<not> isspace (last w)"
  shows "str_in w (strip s) = str_in w s"
proof
  assume "str_in w (strip s)"
  then have "sublist w (strip s)" by (simp add: str_in_sublist)
  then show "str_in w s"
    using strip_is_sublist[of s] by (auto simp: str_in_sublist intro: sublist_order.order_trans)
next
  assume "str_in w s"
  then obtain ps ss where "s = ps @ w @ ss" by (auto simp: str_in_sublist sublist_def)
  then show "str_in w (strip s)"
    using strip_append_middle[OF assms, of ps ss] by (auto simp: str_in_sublist sublist_def)
qed

section \<open>Facts about the audio filters\<close>




text \<open>Without rounding, what is computed is the root mean square.\<close>

lemma rms_exact_arithmetic:
  "np_sqrt exact_arithmetic (np_mean exact_arithmetic (map (np_square exact_arithmetic) audio))
     = sqrt (sum_list (map (\<lambda>v. v ^ 2) audio) / real (length audio))"
  by (simp add: exact_arithmetic_def)


text \<open>The chunk of the examples is significant by its peak.\<close>

lemma significant_halves:
  "is_significant_audio short_chunk_config np [1 / 2, 1 / 2] None None"
  by (simp add: is_significant_audio_def or_config_def short_chunk_config_def
        default_config_def)


lemma chunk_size_short: "CHUNK_SIZE_SAMPLES short_chunk_config = 2"
  by (simp add: CHUNK_SIZE_SAMPLES_def short_chunk_config_def)


section \<open>The wake word state machine\<close>

text \<open>
  C1, as stated, fails: the phrase is looked for in the lower-cased text after white
  space has been stripped from both ends. With the phrase \<open>assistant \<close> (a trailing
  blank) the lower-cased text \<open>hello assistant \<close> contains the phrase, yet \<open>check\<close>
  answers false and the detector stays asleep.
\<close>

theorem check_unstripped_counterexample:
  "str_in (wake_word (WakeWordDetector_init 10 ''assistant '' (7 / 10)))
     (lower ''Hello Assistant '')
   \<and> check 5 ''Hello Assistant '' (WakeWordDetector_init 10 ''assistant '' (7 / 10))
       = (False, WakeWordDetector_init 10 ''assistant '' (7 / 10))"
  by code_simp

text \<open>
  C1, amended: \<open>check\<close> is a two-state machine over \<open>is_awake\<close> and
  \<open>last_wake_time\<close>. If the lower-cased, stripped text contains the phrase, the
  detector becomes awake, \<open>last_wake_time\<close> becomes the current time and the answer is
  true. If it is awake, the phrase is absent and \<open>now - last_wake_time < timeout\<close>, the
  answer is true and the detector is unchanged, so the timer is not reset. If the phrase
  is absent and \<open>now - last_wake_time \<ge> timeout\<close>, the detector is asleep afterwards and
  the answer is false. If it is asleep and the phrase is absent, the answer is false
  and the detector is unchanged.
\<close>

theorem check_state_machine:
  "(str_in (wake_word d) (strip (lower text)) \<longrightarrow>
      check now text d = (True, d\<lparr>is_awake := True, last_wake_time := now\<rparr>))
   \<and> (is_awake d \<and> \<not> str_in (wake_word d) (strip (lower text))
        \<and> now - last_wake_time d < timeout d \<longrightarrow>
      check now text d = (True, d))
   \<and> (\<not> str_in (wake_word d) (strip (lower text)) \<and> now - last_wake_time d \<ge> timeout d \<longrightarrow>
      fst (check now text d) = False \<and> is_awake (snd (check now text d)) = False)
   \<and> (\<not> is_awake d \<and> \<not> str_in (wake_word d) (strip (lower text)) \<longrightarrow>
      check now text d = (False, d))"
  by (simp add: check_def Let_def)

text \<open>
  The run of the specification: phrase \<open>assistant\<close>, timeout 10 seconds; the phrase
  at time 100, \<open>joke\<close> at 105 and at 111, and \<open>joke\<close> to a detector that is asleep.
\<close>

theorem check_state_machine_witness:
  "check 100 ''Hello Assistant'' (WakeWordDetector_init 10 ''assistant'' (7 / 10))
     = (True, (WakeWordDetector_init 10 ''assistant'' (7 / 10))
                \<lparr>is_awake := True, last_wake_time := 100\<rparr>)
   \<and> check 105 ''joke'' ((WakeWordDetector_init 10 ''assistant'' (7 / 10))
                           \<lparr>is_awake := True, last_wake_time := 100\<rparr>)
     = (True, (WakeWordDetector_init 10 ''assistant'' (7 / 10))
                \<lparr>is_awake := True, last_wake_time := 100\<rparr>)
   \<and> fst (check 111 ''joke'' ((WakeWordDetector_init 10 ''assistant'' (7 / 10))
                                \<lparr>is_awake := True, last_wake_time := 100\<rparr>)) = False
   \<and> is_awake (snd (check 111 ''joke'' ((WakeWordDetector_init 10 ''assistant'' (7 / 10))
                                \<lparr>is_awake := True, last_wake_time := 100\<rparr>))) = False
   \<and> check 111 ''joke'' (WakeWordDetector_init 10 ''assistant'' (7 / 10))
     = (False, WakeWordDetector_init 10 ''assistant'' (7 / 10))"
proof -
  let ?d0 = "WakeWordDetector_init 10 ''assistant'' (7 / 10)"
  let ?d1 = "?d0\<lparr>is_awake := True, last_wake_time := 100\<rparr>"
  have h1: "str_in (wake_word ?d0) (strip (lower ''Hello Assistant''))" by code_simp
  have n: "\<not> str_in (wake_word ?d1) (strip (lower ''joke''))" by code_simp
  have n0: "\<not> str_in (wake_word ?d0) (strip (lower ''joke''))" by code_simp
  have h2: "is_awake ?d1 \<and> \<not> str_in (wake_word ?d1) (strip (lower ''joke''))
              \<and> 105 - last_wake_time ?d1 < timeout ?d1"
    using n by (simp add: WakeWordDetector_init_def)
  have h3: "\<not> str_in (wake_word ?d1) (strip (lower ''joke''))
              \<and> 111 - last_wake_time ?d1 \<ge> timeout ?d1"
    using n by (simp add: WakeWordDetector_init_def)
  have h4: "\<not> is_awake ?d0 \<and> \<not> str_in (wake_word ?d0) (strip (lower ''joke''))"
    using n0 by (simp add: WakeWordDetector_init_def)
  from h1 check_state_machine[of ?d0 "''Hello Assistant''" 100]
  have c1: "check 100 ''Hello Assistant'' ?d0 = (True, ?d1)" by simp
  from h2 check_state_machine[of ?d1 "''joke''" 105]
  have c2: "check 105 ''joke'' ?d1 = (True, ?d1)" by simp
  from h3 check_state_machine[of ?d1 "''joke''" 111]
  have c3: "fst (check 111 ''joke'' ?d1) = False \<and> is_awake (snd (check 111 ''joke'' ?d1)) = False"
    by simp
  from h4 check_state_machine[of ?d0 "''joke''" 111]
  have c4: "check 111 ''joke'' ?d0 = (False, ?d0)" by simp
  from c1 c2 c3 c4 show ?thesis by simp
qed

section \<open>The noise gate\<close>




section \<open>The significance test\<close>




section \<open>Command dispatch\<close>

lemma dispatch_skip:
  "\<forall>(t, f) \<in> set pre. \<not> str_in t command_text \<Longrightarrow>
   dispatch eng (pre @ rest) command_text a = dispatch eng rest command_text a"
  by (induction pre) auto

text \<open>
  C4: dispatch is first-match-wins over the table in its order. When no trigger before
  an entry occurs in the command text and the entry's trigger does, the outcome of the
  dispatch is that of this entry's handler, run once on the state as it was, whatever
  the entries before and after it are: no other handler runs. A handler that raises is
  answered by an apology. When no trigger of the table occurs in the command text, the
  fallback sentence is queued for speaking.
\<close>

theorem dispatch_first_match_wins:
  "((\<forall>(t, f) \<in> set pre. \<not> sublist t command_text) \<and> sublist trigger command_text \<longrightarrow>
      dispatch eng (pre @ (trigger, skill_func) # post) command_text a =
        (case skill_func a of
           Returns a' \<Rightarrow> Returns a'
         | Raises a' \<Rightarrow> Returns (tts_speak eng ''Sorry, something went wrong.'' a')
         | Blocks a' \<Rightarrow> Blocks a'))
   \<and> ((\<forall>(t, f) \<in> set table. \<not> sublist t command_text) \<longrightarrow>
      dispatch eng table command_text a =
        Returns (a\<lparr>tts := (tts a)
          \<lparr>speech_queue := speech_queue (tts a) @
             [Some (''I heard you say '' @ command_text @
                    '', but I don't know what to do with that yet.'')],
           unfinished_tasks := unfinished_tasks (tts a) + 1\<rparr>\<rparr>))"
proof (intro conjI impI)
  assume h: "(\<forall>(t, f) \<in> set pre. \<not> sublist t command_text) \<and> sublist trigger command_text"
  then have "\<forall>(t, f) \<in> set pre. \<not> str_in t command_text"
    by (simp add: str_in_sublist)
  then have "dispatch eng (pre @ (trigger, skill_func) # post) command_text a
               = dispatch eng ((trigger, skill_func) # post) command_text a"
    by (rule dispatch_skip)
  with h show "dispatch eng (pre @ (trigger, skill_func) # post) command_text a =
        (case skill_func a of
           Returns a' \<Rightarrow> Returns a'
         | Raises a' \<Rightarrow> Returns (tts_speak eng ''Sorry, something went wrong.'' a')
         | Blocks a' \<Rightarrow> Blocks a')"
    by (simp add: str_in_sublist)
next
  assume "\<forall>(t, f) \<in> set table. \<not> sublist t command_text"
  then have "\<forall>(t, f) \<in> set table. \<not> str_in t command_text"
    by (simp add: str_in_sublist)
  then have "dispatch eng (table @ []) command_text a = dispatch eng [] command_text a"
    by (rule dispatch_skip)
  then show "dispatch eng table command_text a =
        Returns (a\<lparr>tts := (tts a)
          \<lparr>speech_queue := speech_queue (tts a) @
             [Some (''I heard you say '' @ command_text @
                    '', but I don't know what to do with that yet.'')],
           unfinished_tasks := unfinished_tasks (tts a) + 1\<rparr>\<rparr>)"
    by (simp add: tts_speak_def speak_def queue_put_def)
qed

text \<open>
  On the table of the assistant: \<open>tell me a joke please\<close> runs the joke handler,
  \<open>what time is it\<close> passes \<open>joke\<close> and runs the time handler, \<open>open the door\<close>
  matches nothing.
\<close>

theorem dispatch_first_match_wins_witness:
  "dispatch example_engines (command_map default_config example_engines)
      ''tell me a joke please'' (VoiceAssistant_init default_config)
     = Returns (tts_speak example_engines ''Knock knock.'' (VoiceAssistant_init default_config))
   \<and> dispatch example_engines (command_map default_config example_engines)
      ''what time is it'' (VoiceAssistant_init default_config)
     = Returns (tts_speak example_engines ''It is 10:30 AM, on Monday, May 05.''
                  (VoiceAssistant_init default_config))
   \<and> dispatch example_engines (command_map default_config example_engines)
      ''open the door'' (VoiceAssistant_init default_config)
     = Returns (tts_speak example_engines
         ''I heard you say open the door, but I don't know what to do with that yet.''
         (VoiceAssistant_init default_config))"
proof -
  let ?e = example_engines and ?c = default_config
  let ?a = "VoiceAssistant_init default_config"
  let ?post = "[(''date'', skill_tell_time ?e), (''stop'', skill_exit ?e), (''exit'', skill_exit ?e),
      (''goodbye'', skill_exit ?e), (''sleep'', skill_sleep ?c ?e)]"
  have gj: "get_joke ?e = Some ''Knock knock.''"
    and gt: "time_str ?e = Some ''It is 10:30 AM, on Monday, May 05.''"
    by (simp_all add: example_engines_def)
  have j: "sublist ''joke'' ''tell me a joke please''"
    unfolding str_in_sublist[symmetric] by code_simp
  have h0: "(\<forall>(t, f) \<in> set []. \<not> sublist t ''tell me a joke please'')
              \<and> sublist ''joke'' ''tell me a joke please''"
    using j by simp
  have nj: "\<not> sublist ''joke'' ''what time is it''"
    unfolding str_in_sublist[symmetric] by code_simp
  have t: "sublist ''time'' ''what time is it''"
    unfolding str_in_sublist[symmetric] by code_simp
  have h1: "(\<forall>(t, f) \<in> set [(''joke'', skill_tell_joke ?e)]. \<not> sublist t ''what time is it'')
              \<and> sublist ''time'' ''what time is it''"
    using nj t by simp
  have none: "\<not> sublist ''joke'' ''open the door''" "\<not> sublist ''time'' ''open the door''"
    "\<not> sublist ''date'' ''open the door''" "\<not> sublist ''stop'' ''open the door''"
    "\<not> sublist ''exit'' ''open the door''" "\<not> sublist ''goodbye'' ''open the door''"
    "\<not> sublist ''sleep'' ''open the door''"
    unfolding str_in_sublist[symmetric] by code_simp+
  have h2: "\<forall>(t, f) \<in> set (command_map ?c ?e). \<not> sublist t ''open the door''"
    using none by (simp add: command_map_def)
  from h0 dispatch_first_match_wins[of "[]" "''tell me a joke please''" "''joke''" ?e
      "skill_tell_joke ?e" "(''time'', skill_tell_time ?e) # ?post" ?a]
  have c0: "dispatch ?e (command_map ?c ?e) ''tell me a joke please'' ?a
              = Returns (tts_speak ?e ''Knock knock.'' ?a)"
    by (simp add: command_map_def skill_tell_joke_def gj)
  from h1 dispatch_first_match_wins[of "[(''joke'', skill_tell_joke ?e)]" "''what time is it''"
      "''time''" ?e "skill_tell_time ?e" ?post ?a]
  have c1: "dispatch ?e (command_map ?c ?e) ''what time is it'' ?a
              = Returns (tts_speak ?e ''It is 10:30 AM, on Monday, May 05.'' ?a)"
    by (simp add: command_map_def skill_tell_time_def gt)
  from h2 dispatch_first_match_wins[of "[]" "''open the door''" "''joke''" ?e
      "skill_tell_joke ?e" "[]" ?a "command_map ?c ?e"]
  have c2: "dispatch ?e (command_map ?c ?e) ''open the door'' ?a
     = Returns (tts_speak ?e
         ''I heard you say open the door, but I don't know what to do with that yet.'' ?a)"
    by (simp add: tts_speak_def speak_def queue_put_def)
  from c0 c1 c2 show ?thesis by simp
qed

section \<open>An utterance made of the phrase only\<close>

text \<open>
  C10: when the lower-cased, stripped text contains the activation phrase, differs from
  it, and removing every occurrence of the phrase leaves nothing (or white space only,
  as when the phrase is said twice with a blank between), \<open>handle_command\<close> returns with
  the speech queue and everything else but the wake word detector unchanged, whatever
  the table is: nothing is acknowledged, no handler runs, no fallback is spoken.
\<close>

theorem handle_command_phrase_only_returns:
  "txt = strip (lower text0) \<and> str_in (WAKE_WORD cfg) txt \<and> txt \<noteq> WAKE_WORD cfg
     \<and> strip (replace (WAKE_WORD cfg) [] txt) = [] \<longrightarrow>
   handle_command cfg eng cmap now text0 a =
     Returns (a\<lparr>wake_word_detector := snd (check now txt (wake_word_detector a))\<rparr>)"
proof
  assume h: "txt = strip (lower text0) \<and> str_in (WAKE_WORD cfg) txt \<and> txt \<noteq> WAKE_WORD cfg
     \<and> strip (replace (WAKE_WORD cfg) [] txt) = []"
  let ?t = "strip (lower text0)"
  from h have t: "txt = ?t" by blast
  from h have ne: "?t \<noteq> []" by (cases ?t) auto
  from h have neq: "?t \<noteq> WAKE_WORD cfg" by blast
  from h have emp: "strip (replace (WAKE_WORD cfg) [] ?t) = []" by blast
  obtain ok d where c: "check now ?t (wake_word_detector a) = (ok, d)"
    by (cases "check now ?t (wake_word_detector a)") simp
  show "handle_command cfg eng cmap now text0 a =
     Returns (a\<lparr>wake_word_detector := snd (check now txt (wake_word_detector a))\<rparr>)"
    unfolding t using ne neq emp c by (simp add: handle_command_def Let_def)
qed

theorem handle_command_phrase_only_returns_witness:
  "handle_command default_config example_engines (command_map default_config example_engines)
     100 ''Assistant assistant'' (VoiceAssistant_init default_config)
   = Returns ((VoiceAssistant_init default_config)
       \<lparr>wake_word_detector := (wake_word_detector (VoiceAssistant_init default_config))
           \<lparr>is_awake := True, last_wake_time := 100\<rparr>\<rparr>)"
proof -
  have h: "''assistant assistant'' = strip (lower ''Assistant assistant'')
     \<and> str_in (WAKE_WORD default_config) ''assistant assistant''
     \<and> ''assistant assistant'' \<noteq> WAKE_WORD default_config
     \<and> strip (replace (WAKE_WORD default_config) [] ''assistant assistant'') = []"
    by code_simp
  have c: "snd (check 100 ''assistant assistant'' (wake_word_detector (VoiceAssistant_init default_config)))
         = (wake_word_detector (VoiceAssistant_init default_config))\<lparr>is_awake := True, last_wake_time := 100\<rparr>"
    by code_simp
  from h handle_command_phrase_only_returns[of "''assistant assistant''" "''Assistant assistant''" default_config
       example_engines "command_map default_config example_engines" 100 "VoiceAssistant_init default_config"]
  show ?thesis unfolding c by blast
qed

section \<open>The run loop while the synthesizer speaks\<close>

text \<open>
  C2, as stated, fails: the flag \<open>is_speaking\<close> is read only after the significance
  test and the noise gate. With the flag set and a full chunk ready, the iteration asks
  for both before it drops the chunk.
\<close>

theorem listen_while_speaking_counterexample:
  "is_speaking (tts speaking_assistant)
   \<and> CHUNK_SIZE_SAMPLES short_chunk_config \<le> real (length ([] @ [1 / 2, 1 / 2 :: real]))
   \<and> listen_iteration short_chunk_config exact_arithmetic example_engines
        (command_map short_chunk_config example_engines) example_clock
        (Block [1 / 2, 1 / 2]) speaking_assistant []
      = Continue (speaking_assistant\<lparr>trace := [Call_is_significant_audio, Call_noise_gate]\<rparr>) []"
  by (simp add: listen_iteration_def Let_def chunk_size_short significant_halves log_event_def
        speaking_assistant_def VoiceAssistant_init_def PiperTTS_init_def)

text \<open>
  C2, amended: in an iteration in which a full chunk is ready while \<open>is_speaking\<close> is
  set, the chunk is not transcribed and is discarded: the significance test is asked
  for, then the noise gate when the chunk is significant, and nothing else happens;
  the number of transcriptions does not grow, the synthesizer is untouched and the
  buffer is empty afterwards.
\<close>

theorem listen_while_speaking:
  "is_speaking (tts a) \<and> real (length (buf @ data)) \<ge> CHUNK_SIZE_SAMPLES cfg \<longrightarrow>
     listen_iteration cfg np eng cmap clock (Block data) a buf =
       Continue (a\<lparr>trace := trace a @
                  (if is_significant_audio cfg np (buf @ data) None None
                   then [Call_is_significant_audio, Call_noise_gate]
                   else [Call_is_significant_audio])\<rparr>) []
     \<and> (\<forall>a' buf'. listen_iteration cfg np eng cmap clock (Block data) a buf = Continue a' buf' \<longrightarrow>
            transcription_count a' = transcription_count a \<and> tts a' = tts a \<and> buf' = [])"
  by (simp add: listen_iteration_def Let_def log_event_def transcription_count_def)

theorem listen_while_speaking_witness:
  "listen_iteration short_chunk_config exact_arithmetic example_engines
        (command_map short_chunk_config example_engines) example_clock
        (Block [1 / 2]) speaking_assistant [1 / 2]
      = Continue (speaking_assistant\<lparr>trace := trace speaking_assistant @
           [Call_is_significant_audio, Call_noise_gate]\<rparr>) []"
proof -
  have h: "is_speaking (tts speaking_assistant)
     \<and> real (length ([1 / 2 :: real] @ [1 / 2])) \<ge> CHUNK_SIZE_SAMPLES short_chunk_config"
    by code_simp
  have s: "is_significant_audio short_chunk_config exact_arithmetic ([1 / 2] @ [1 / 2]) None None"
    using significant_halves[of exact_arithmetic] by simp
  from h listen_while_speaking[where a = speaking_assistant and buf = "[1 / 2]"
      and data = "[1 / 2]" and cfg = short_chunk_config and np = exact_arithmetic and eng = example_engines
      and cmap = "command_map short_chunk_config example_engines" and clock = example_clock]
  have "listen_iteration short_chunk_config exact_arithmetic example_engines
        (command_map short_chunk_config example_engines) example_clock
        (Block [1 / 2]) speaking_assistant [1 / 2]
      = Continue (speaking_assistant\<lparr>trace := trace speaking_assistant @
          (if is_significant_audio short_chunk_config exact_arithmetic ([1 / 2] @ [1 / 2]) None None
                   then [Call_is_significant_audio, Call_noise_gate]
                   else [Call_is_significant_audio])\<rparr>) []"
    by blast
  then show ?thesis by (simp only: s if_True)
qed

section \<open>Recovery of the run loop\<close>




section \<open>Facts about the synthesizer\<close>

declare await.simps [simp del]

subsection \<open>In service\<close>

lemma tts_ok_init: "tts_ok PiperTTS_init"
  by (simp add: tts_ok_def PiperTTS_init_def)

lemma tts_ok_speak: "tts_ok t \<Longrightarrow> tts_ok (speak eng text False t)"
  by (simp add: tts_ok_def speak_def queue_put_def)

lemma tts_ok_step: "tts_ok t \<Longrightarrow> tts_ok (speech_worker_step eng t)"
  by (auto simp: tts_ok_def speech_worker_step_def speak_blocking_def Let_def
           split: worker.splits list.splits option.splits)

lemma tts_ok_drained: "tts_ok t \<Longrightarrow> tts_ok (drained eng t)"
  by (simp add: tts_ok_def drained_def)

lemma await_Returns: "await c eng t = Returns t' \<Longrightarrow> c t'"
proof (induction c eng t rule: await.induct)
  case (1 c eng t)
  show ?case
  proof (cases "c t")
    case True
    with "1.prems" show ?thesis by (simp add: await.simps[of c eng t])
  next
    case False
    with "1.prems" "1.IH" show ?thesis
      by (simp add: await.simps[of c eng t] split: worker.splits if_splits)
  qed
qed

lemma await_not_Raises: "await c eng t \<noteq> Raises t'"
proof (induction c eng t rule: await.induct)
  case (1 c eng t)
  show ?case
  proof (cases "c t")
    case True
    then show ?thesis by (simp add: await.simps[of c eng t])
  next
    case False
    with "1.IH" show ?thesis
      by (simp add: await.simps[of c eng t] split: worker.splits if_splits)
  qed
qed

lemma await_now: "c t \<Longrightarrow> await c eng t = Returns t"
  by (simp add: await.simps[of c eng t])

lemma await_In_get:
  "tts_ok t \<Longrightarrow> speech_thread t = In_get \<Longrightarrow> speech_queue t \<noteq> [] \<Longrightarrow>
   await (\<lambda>t. unfinished_tasks t = 0) eng t = Returns (drained eng t)"
proof (induction "speech_queue t" arbitrary: t)
  case Nil
  then show ?case by simp
next
  case (Cons x q)
  let ?c = "\<lambda>t. unfinished_tasks t = 0"
  from Cons.hyps(2) Cons.prems obtain msg where x: "x = Some msg"
    by (cases x) (auto simp: tts_ok_def dest: sym)
  have q: "speech_queue t = Some msg # q" using Cons.hyps(2) x by simp
  let ?t1 = "t\<lparr>speech_queue := q, is_speaking := True, speech_thread := Speaking msg\<rparr>"
  let ?t2 = "t\<lparr>speech_queue := q, is_speaking := False, speech_thread := At_loop_head,
               unfinished_tasks := length q,
               speech_log := speech_log t @ [(msg, synthesize eng msg, True)]\<rparr>"
  have u: "unfinished_tasks t = Suc (length q)"
    using Cons.prems q by (simp add: tts_ok_def)
  have s1: "speech_worker_step eng t = ?t1"
    using Cons.prems q by (simp add: speech_worker_step_def)
  have s2: "speech_worker_step eng ?t1 = ?t2"
    using u by (simp add: speech_worker_step_def speak_blocking_def Let_def)
  have a1: "await ?c eng t = await ?c eng ?t1"
    using Cons.prems q u s1 by (simp add: await.simps[of ?c eng t])
  have a2: "await ?c eng ?t1 = await ?c eng ?t2"
    using u s2 by (simp add: await.simps[of ?c eng ?t1])
  show ?case
  proof (cases "q = []")
    case True
    then have "await ?c eng ?t2 = Returns ?t2" by (simp add: await_now)
    moreover have "?t2 = drained eng t"
      using True q Cons.prems by (simp add: drained_def)
    ultimately show ?thesis using a1 a2 by simp
  next
    case False
    let ?t3 = "?t2\<lparr>speech_thread := In_get\<rparr>"
    have nf: "\<not> shutdown_flag t" using Cons.prems by (simp add: tts_ok_def)
    have s3: "speech_worker_step eng ?t2 = ?t3"
      using nf by (simp add: speech_worker_step_def)
    have a3: "await ?c eng ?t2 = await ?c eng ?t3"
      using False s3 by (simp add: await.simps[of ?c eng ?t2])
    have ok3: "tts_ok ?t3" using Cons.prems q by (simp add: tts_ok_def)
    have "await ?c eng ?t3 = Returns (drained eng ?t3)"
      using Cons.hyps(1)[of ?t3] ok3 False by simp
    moreover have "drained eng ?t3 = drained eng t"
      using q Cons.prems by (simp add: drained_def)
    ultimately show ?thesis using a1 a2 a3 by simp
  qed
qed

lemma await_drains:
  assumes ok: "tts_ok t" and u: "unfinished_tasks t \<noteq> 0"
  shows "await (\<lambda>t. unfinished_tasks t = 0) eng t = Returns (drained eng t)"
proof -
  let ?c = "\<lambda>t. unfinished_tasks t = 0"
  have head: "await ?c eng s = Returns (drained eng s)"
    if "tts_ok s" "speech_thread s = At_loop_head" "speech_queue s \<noteq> []" for s
  proof -
    let ?s1 = "s\<lparr>speech_thread := In_get\<rparr>"
    from that have "speech_worker_step eng s = ?s1"
      by (simp add: speech_worker_step_def tts_ok_def)
    moreover from that have "unfinished_tasks s \<noteq> 0" by (simp add: tts_ok_def)
    ultimately have "await ?c eng s = await ?c eng ?s1"
      using that by (simp add: await.simps[of ?c eng s])
    moreover have "await ?c eng ?s1 = Returns (drained eng ?s1)"
      using that by (intro await_In_get) (simp_all add: tts_ok_def)
    moreover have "drained eng ?s1 = drained eng s"
      using that by (simp add: drained_def)
    ultimately show ?thesis by simp
  qed
  show ?thesis
  proof (cases "speech_thread t")
    case At_loop_head
    with ok u have "speech_queue t \<noteq> []" by (auto simp: tts_ok_def)
    with ok At_loop_head show ?thesis by (rule head)
  next
    case In_get
    with ok u have "speech_queue t \<noteq> []" by (auto simp: tts_ok_def)
    with ok In_get show ?thesis by (rule await_In_get)
  next
    case (Speaking msg)
    let ?t2 = "t\<lparr>is_speaking := False, speech_thread := At_loop_head,
               unfinished_tasks := length (speech_queue t),
               speech_log := speech_log t @ [(msg, synthesize eng msg, True)]\<rparr>"
    have s: "speech_worker_step eng t = ?t2"
      using ok Speaking by (simp add: speech_worker_step_def speak_blocking_def Let_def tts_ok_def)
    have a: "await ?c eng t = await ?c eng ?t2"
      using u Speaking s by (simp add: await.simps[of ?c eng t])
    show ?thesis
    proof (cases "speech_queue t = []")
      case True
      then have "await ?c eng ?t2 = Returns ?t2" by (simp add: await_now)
      moreover have "?t2 = drained eng t" using True Speaking by (simp add: drained_def)
      ultimately show ?thesis using a by simp
    next
      case False
      have "tts_ok ?t2" using ok Speaking by (simp add: tts_ok_def)
      then have "await ?c eng ?t2 = Returns (drained eng ?t2)"
        using False by (intro head) simp_all
      moreover have "drained eng ?t2 = drained eng t" using Speaking by (simp add: drained_def)
      ultimately show ?thesis using a by simp
    qed
  next
    case Exited
    with ok show ?thesis by (simp add: tts_ok_def)
  qed
qed

lemma wait_until_done_drains:
  assumes "tts_ok t" "unfinished_tasks t \<noteq> 0"
  shows "wait_until_done eng t = Returns (drained eng t)"
proof -
  have "\<not> is_speaking (drained eng t)" by (simp add: drained_def)
  then have "await (\<lambda>t. \<not> is_speaking t) eng (drained eng t) = Returns (drained eng t)"
    by (simp add: await_now)
  then show ?thesis using await_drains[OF assms, of eng] by (simp add: wait_until_done_def)
qed

lemma await_keeps_finished:
  "await c eng s = Returns s' \<Longrightarrow> unfinished_tasks s = 0 \<Longrightarrow> unfinished_tasks s' = 0"
proof (induction c eng s rule: await.induct)
  case (1 c eng s)
  show ?case
  proof (cases "c s")
    case True
    with "1.prems" show ?thesis by (simp add: await.simps[of c eng s])
  next
    case False
    have st: "unfinished_tasks (speech_worker_step eng s) = 0"
      using "1.prems"(2)
      by (auto simp: speech_worker_step_def speak_blocking_def Let_def
               split: worker.splits list.splits option.splits)
    from False "1.prems"(1) "1.IH" st show ?thesis
      by (simp add: await.simps[of c eng s] split: worker.splits if_splits)
  qed
qed

lemma wait_until_done_Returns:
  "wait_until_done eng t = Returns t' \<Longrightarrow> unfinished_tasks t' = 0 \<and> \<not> is_speaking t'"
proof -
  assume r: "wait_until_done eng t = Returns t'"
  then obtain t1 where 1: "await (\<lambda>t. unfinished_tasks t = 0) eng t = Returns t1"
    and 2: "await (\<lambda>t. \<not> is_speaking t) eng t1 = Returns t'"
    by (auto simp: wait_until_done_def split: outcome.splits)
  from 2 have f: "\<not> is_speaking t'" by (rule await_Returns)
  from 1 have "unfinished_tasks t1 = 0" by (rule await_Returns)
  with 2 have "unfinished_tasks t' = 0" by (rule await_keeps_finished)
  with f show ?thesis by simp
qed

lemma wait_until_done_not_Raises: "wait_until_done eng t \<noteq> Raises t'"
  by (auto simp: wait_until_done_def await_not_Raises split: outcome.splits)

text \<open>
  The run loop with the table of the assistant keeps the synthesizer in service, so
  every handler it calls finds it so.
\<close>

lemma tts_ok_skills:
  "tts_ok (tts a) \<Longrightarrow> skill_tell_joke eng a = Returns a' \<Longrightarrow> tts_ok (tts a')"
  "tts_ok (tts a) \<Longrightarrow> skill_tell_time eng a = Returns a' \<Longrightarrow> tts_ok (tts a')"
  "tts_ok (tts a) \<Longrightarrow> skill_sleep cfg eng a = Returns a' \<Longrightarrow> tts_ok (tts a')"
  by (auto simp: skill_tell_joke_def skill_tell_time_def skill_sleep_def tts_speak_def
        tts_ok_speak split: option.splits)

lemma tts_ok_skill_exit:
  assumes "tts_ok (tts a)" "skill_exit eng a = Returns a'"
  shows "tts_ok (tts a')"
proof -
  let ?t = "speak eng farewell False (tts a)"
  have ok: "tts_ok ?t" using assms(1) by (rule tts_ok_speak)
  moreover have "unfinished_tasks ?t \<noteq> 0" by (simp add: speak_def queue_put_def)
  ultimately have "wait_until_done eng ?t = Returns (drained eng ?t)"
    by (rule wait_until_done_drains)
  with assms(2) have "tts a' = drained eng ?t"
    by (auto simp: skill_exit_def tts_speak_def Let_def)
  with ok show ?thesis by (simp add: tts_ok_drained)
qed

lemma tts_ok_dispatch:
  assumes "\<forall>(trig, f) \<in> set table. \<forall>a a'. tts_ok (tts a) \<longrightarrow> f a = Returns a' \<longrightarrow> tts_ok (tts a')"
    and "\<forall>(trig, f) \<in> set table. \<forall>a a'. f a \<noteq> Raises a'"
  shows "tts_ok (tts a) \<Longrightarrow> dispatch eng table command_text a = Returns a' \<Longrightarrow> tts_ok (tts a')"
  using assms
proof (induction table)
  case Nil
  then show ?case by (auto simp: tts_speak_def tts_ok_speak)
next
  case (Cons e table)
  obtain trig f where e: "e = (trig, f)" by (cases e)
  show ?case
  proof (cases "str_in trig command_text")
    case True
    with Cons.prems e show ?thesis
      by (auto split: outcome.splits)
  next
    case False
    with Cons e show ?thesis by auto
  qed
qed

lemma tts_ok_command_map:
  "tts_ok (tts a) \<Longrightarrow> dispatch eng (command_map cfg eng) command_text a = Returns a'
     \<Longrightarrow> tts_ok (tts a')"
proof (erule tts_ok_dispatch[rotated 2])
  show "\<forall>(trig, f) \<in> set (command_map cfg eng).
          \<forall>a a'. tts_ok (tts a) \<longrightarrow> f a = Returns a' \<longrightarrow> tts_ok (tts a')"
    by (auto simp: command_map_def intro: tts_ok_skills tts_ok_skill_exit)
  show "\<forall>(trig, f) \<in> set (command_map cfg eng). \<forall>a a'. f a \<noteq> Raises a'"
    by (auto simp: command_map_def skill_tell_joke_def skill_tell_time_def skill_sleep_def
          skill_exit_def Let_def wait_until_done_not_Raises split: option.splits outcome.splits)
qed

lemma tts_ok_handle_command:
  "tts_ok (tts a) \<Longrightarrow> handle_command cfg eng (command_map cfg eng) now text0 a = Returns a'
     \<Longrightarrow> tts_ok (tts a')"
  by (auto simp: handle_command_def Let_def tts_speak_def tts_ok_speak
        split: if_splits prod.splits dest: tts_ok_command_map[rotated])

lemma dispatch_not_Raises: "dispatch eng table command_text a \<noteq> Raises a'"
  by (induction table) (auto split: outcome.splits if_splits)

lemma handle_command_not_Raises: "handle_command cfg eng cmap now text0 a \<noteq> Raises a'"
  by (simp add: handle_command_def Let_def dispatch_not_Raises split: prod.splits)

lemma handle_segments_not_Raises:
  "handle_segments cfg eng cmap clock i segs a \<noteq> Raises a'"
  by (induction segs arbitrary: a i)
     (auto simp: Let_def handle_command_not_Raises split: outcome.splits)

lemma tts_ok_handle_segments:
  "tts_ok (tts a) \<Longrightarrow>
   handle_segments cfg eng (command_map cfg eng) clock i segs a = Returns a' \<Longrightarrow>
   tts_ok (tts a')"
proof (induction segs arbitrary: a i)
  case Nil
  then show ?case by simp
next
  case (Cons seg segs)
  show ?case
  proof (cases "strip seg = []")
    case True
    with Cons show ?thesis by simp
  next
    case False
    with Cons.prems(2) obtain a1 where
      1: "handle_command cfg eng (command_map cfg eng) (clock i) (strip seg) a = Returns a1"
      and 2: "handle_segments cfg eng (command_map cfg eng) clock (Suc i) segs a1 = Returns a'"
      by (auto simp: Let_def split: outcome.splits)
    from Cons.prems(1) 1 have "tts_ok (tts a1)" by (rule tts_ok_handle_command)
    then show ?thesis using 2 by (rule Cons.IH)
  qed
qed

lemma tts_ok_listen_iteration:
  "tts_ok (tts a) \<Longrightarrow>
   listen_iteration cfg np eng (command_map cfg eng) clock got a buf = Continue a' buf' \<Longrightarrow>
   tts_ok (tts a')"
  by (auto simp: listen_iteration_def recover_def log_event_def Let_def
        handle_segments_not_Raises
        split: audio_get.splits if_splits outcome.splits
        dest: tts_ok_handle_segments[rotated])

subsection \<open>After shutdown\<close>

lemma shut_down_shutdown: "shut_down (shutdown t)"
  by (simp add: shut_down_def shutdown_def queue_put_def)

lemma shut_down_step: "shut_down t \<Longrightarrow> shut_down (speech_worker_step eng t)"
  by (auto simp: shut_down_def speech_worker_step_def speak_blocking_def Let_def
           split: worker.splits list.splits option.splits)

lemma shut_down_steps: "shut_down t \<Longrightarrow> shut_down ((speech_worker_step eng ^^ n) t)"
  by (induction n) (simp_all add: shut_down_step)

lemma stranded_speak: "shut_down t \<Longrightarrow> stranded text (speak eng text False t)"
  by (simp add: shut_down_def stranded_def speak_def queue_put_def)

lemma stranded_step: "stranded text t \<Longrightarrow> stranded text (speech_worker_step eng t)"
proof (cases "speech_thread t")
  case In_get
  assume s: "stranded text t"
  with In_get obtain x q where q: "speech_queue t = x # q" "q \<noteq> []"
    by (cases "speech_queue t") (auto simp: stranded_def split: if_splits)
  with s In_get show ?thesis
    by (auto simp: stranded_def speech_worker_step_def split: option.splits)
qed (auto simp: stranded_def speech_worker_step_def speak_blocking_def Let_def)

lemma stranded_steps: "stranded text t \<Longrightarrow> stranded text ((speech_worker_step eng ^^ n) t)"
  by (induction n) (simp_all add: stranded_step)

lemma exited_step: "speech_thread t = Exited \<Longrightarrow> speech_worker_step eng t = t"
  by (simp add: speech_worker_step_def)

lemma exited_steps: "speech_thread t = Exited \<Longrightarrow> (speech_worker_step eng ^^ n) t = t"
  by (induction n) (simp_all add: exited_step)

lemma shut_down_exits:
  "shut_down t \<Longrightarrow> speech_thread ((speech_worker_step eng ^^ 3) t) = Exited"
  by (auto simp: shut_down_def speech_worker_step_def speak_blocking_def Let_def
        numeral_3_eq_3 split: worker.splits list.splits option.splits)

lemma stranded_shut_down: "stranded text t \<Longrightarrow> shut_down t"
  by (auto simp: stranded_def shut_down_def dest: in_set_butlastD)

lemma credit_step:
  "shut_down t \<Longrightarrow>
   length (speech_log (speech_worker_step eng t)) + credit (speech_thread (speech_worker_step eng t))
     \<le> length (speech_log t) + credit (speech_thread t)"
  by (auto simp: shut_down_def speech_worker_step_def speak_blocking_def Let_def
           split: worker.splits list.splits option.splits)

lemma credit_steps:
  "shut_down t \<Longrightarrow>
   length (speech_log ((speech_worker_step eng ^^ n) t))
     + credit (speech_thread ((speech_worker_step eng ^^ n) t))
     \<le> length (speech_log t) + credit (speech_thread t)"
proof (induction n)
  case 0
  then show ?case by simp
next
  case (Suc n)
  have "shut_down ((speech_worker_step eng ^^ n) t)" using Suc.prems by (rule shut_down_steps)
  from credit_step[OF this, of eng] Suc.IH[OF Suc.prems] show ?case by simp
qed

lemma credit_le_1: "credit w \<le> 1"
  by (cases w) simp_all

section \<open>The speaking flag\<close>

text \<open>
  The worker sets \<open>is_speaking\<close> before it synthesizes a dequeued text and clears it
  afterwards, whatever the voice produced.
\<close>

lemma speech_worker_sets_flag:
  "speech_thread t = In_get \<Longrightarrow> speech_queue t = Some text # q \<Longrightarrow>
   is_speaking (speech_worker_step eng t)
   \<and> speech_log (speech_worker_step eng (speech_worker_step eng t))
       = speech_log t @ [(text, synthesize eng text, True)]
   \<and> \<not> is_speaking (speech_worker_step eng (speech_worker_step eng t))"
  by (simp add: speech_worker_step_def speak_blocking_def Let_def)

text \<open>
  C3 asks for the same when \<open>speak\<close> is called with \<open>blocking=True\<close>. That path runs
  \<open>_speak_blocking\<close> on the calling thread and never touches the flag: on a fresh
  synthesizer the text is synthesized and played while \<open>is_speaking\<close> is false, and the
  flag is false afterwards.
\<close>

theorem speak_blocking_flag_clear:
  "speak example_engines ''hello'' True PiperTTS_init
     = PiperTTS_init\<lparr>speech_log := [(''hello'', Audio [[1 / 2]], False)]\<rparr>
   \<and> playback (''hello'', Audio [[1 / 2]], False)
   \<and> \<not> is_speaking (speak example_engines ''hello'' True PiperTTS_init)"
  by code_simp

section \<open>Speaking after shutdown\<close>

text \<open>
  C9, as stated, fails for \<open>blocking=True\<close>: after \<open>shutdown\<close>, and after the worker
  has exited, a blocking \<open>speak\<close> still synthesizes and plays its text.
\<close>

theorem speak_blocking_after_shutdown_counterexample:
  "speak example_engines ''hello'' True
     ((speech_worker_step example_engines ^^ 3) (shutdown PiperTTS_init))
   = PiperTTS_init\<lparr>speech_queue := [None], unfinished_tasks := 1, shutdown_flag := True,
       speech_thread := Exited, speech_log := [(''hello'', Audio [[1 / 2]], False)]\<rparr>
   \<and> playback (''hello'', Audio [[1 / 2]], False)"
  by code_simp

text \<open>
  C9, amended: after \<open>shutdown\<close>, a non-blocking \<open>speak\<close> starts no playback and does
  not bring the worker back. Whatever number of steps the worker takes before and
  after the call, the request stays the last item of the queue; the log of the
  synthesizer grows by at most one run since the shutdown, that of a request the
  worker had already taken or was about to take; three steps after the call the worker
  has exited, and further steps change nothing. A blocking \<open>speak\<close> after \<open>shutdown\<close>
  runs \<open>_speak_blocking\<close> at once, as before it.
\<close>

theorem speak_after_shutdown_stranded:
  "speech_queue ((speech_worker_step eng ^^ n)
       (speak eng text False ((speech_worker_step eng ^^ m) (shutdown t)))) \<noteq> []
   \<and> last (speech_queue ((speech_worker_step eng ^^ n)
       (speak eng text False ((speech_worker_step eng ^^ m) (shutdown t))))) = Some text
   \<and> length (speech_log ((speech_worker_step eng ^^ n)
       (speak eng text False ((speech_worker_step eng ^^ m) (shutdown t)))))
       \<le> length (speech_log t) + 1
   \<and> speech_thread ((speech_worker_step eng ^^ (n + 3))
       (speak eng text False ((speech_worker_step eng ^^ m) (shutdown t)))) = Exited
   \<and> (speech_worker_step eng ^^ n)
       ((speech_worker_step eng ^^ 3)
          (speak eng text False ((speech_worker_step eng ^^ m) (shutdown t))))
     = (speech_worker_step eng ^^ 3)
          (speak eng text False ((speech_worker_step eng ^^ m) (shutdown t)))
   \<and> speech_log (speak eng text True ((speech_worker_step eng ^^ m) (shutdown t)))
     = speech_log ((speech_worker_step eng ^^ m) (shutdown t)) @
         [(text, synthesize eng text,
           is_speaking ((speech_worker_step eng ^^ m) (shutdown t)))]"
proof -
  let ?s = "(speech_worker_step eng ^^ m) (shutdown t)"
  let ?t1 = "speak eng text False ?s"
  let ?tn = "(speech_worker_step eng ^^ n) ?t1"
  have sd: "shut_down ?s" by (simp add: shut_down_shutdown shut_down_steps)
  then have st: "stranded text ?t1" by (rule stranded_speak)
  then have "stranded text ?tn" by (rule stranded_steps)
  then have a: "speech_queue ?tn \<noteq> []" "last (speech_queue ?tn) = Some text"
    by (simp_all add: stranded_def)
  have sd1: "shut_down ?t1" using st by (rule stranded_shut_down)
  have l0: "length (speech_log ?s) + credit (speech_thread ?s)
              \<le> length (speech_log (shutdown t)) + credit (speech_thread (shutdown t))"
    using shut_down_shutdown by (rule credit_steps)
  have l1: "length (speech_log ?tn) + credit (speech_thread ?tn)
              \<le> length (speech_log ?t1) + credit (speech_thread ?t1)"
    using sd1 by (rule credit_steps)
  have e1: "speech_log ?t1 = speech_log ?s" "speech_thread ?t1 = speech_thread ?s"
    by (simp_all add: speak_def queue_put_def)
  have e0: "speech_log (shutdown t) = speech_log t"
    by (simp add: shutdown_def queue_put_def)
  have l1': "length (speech_log ?tn) + credit (speech_thread ?tn)
              \<le> length (speech_log ?s) + credit (speech_thread ?s)"
    using l1 by (simp only: e1)
  have l0': "length (speech_log ?s) + credit (speech_thread ?s)
              \<le> length (speech_log t) + credit (speech_thread (shutdown t))"
    using l0 by (simp only: e0)
  have b: "length (speech_log ?tn) \<le> length (speech_log t) + 1"
    using l0' l1' credit_le_1[of "speech_thread (shutdown t)"] by linarith
  have ex3: "speech_thread ((speech_worker_step eng ^^ 3) ?t1) = Exited"
    using sd1 by (rule shut_down_exits)
  have d: "(speech_worker_step eng ^^ n) ((speech_worker_step eng ^^ 3) ?t1)
             = (speech_worker_step eng ^^ 3) ?t1"
    using ex3 by (rule exited_steps)
  have "(speech_worker_step eng ^^ (n + 3)) ?t1
          = (speech_worker_step eng ^^ n) ((speech_worker_step eng ^^ 3) ?t1)"
    by (simp add: funpow_add)
  with d ex3 have c: "speech_thread ((speech_worker_step eng ^^ (n + 3)) ?t1) = Exited"
    by simp
  have e: "speech_log (speak eng text True ?s)
             = speech_log ?s @ [(text, synthesize eng text, is_speaking ?s)]"
    by (simp add: speak_def speak_blocking_def)
  from a b c d e show ?thesis by (intro conjI)
qed

section \<open>The exit command\<close>

text \<open>
  C7: \<open>_skill_exit\<close> queues the farewell, waits until nothing is unfinished and nothing
  is being spoken, and only then clears \<open>keep_running\<close>. With the synthesizer in
  service the call returns, and in the state in which \<open>keep_running\<close> is false the queue
  is empty, nothing is in flight, and the log has grown by the requests that were in
  flight or queued followed by the farewell, each synthesized with \<open>is_speaking\<close> set.
  In any state: when the call returns, nothing is unfinished and nothing is being
  spoken; when the wait never ends, \<open>keep_running\<close> is as it was; the call never raises.
\<close>

theorem skill_exit_order:
  "(tts_ok (tts a) \<longrightarrow>
      (\<exists>a'. skill_exit eng a = Returns a' \<and> \<not> keep_running a'
         \<and> speech_queue (tts a') = [] \<and> unfinished_tasks (tts a') = 0
         \<and> \<not> is_speaking (tts a') \<and> in_flight (speech_thread (tts a')) = []
         \<and> speech_log (tts a') = speech_log (tts a) @
              map (\<lambda>x. (x, synthesize eng x, True))
                (in_flight (speech_thread (tts a)) @ map the (speech_queue (tts a))
                   @ [farewell])))
   \<and> (\<forall>a'. skill_exit eng a = Returns a' \<longrightarrow>
         \<not> keep_running a' \<and> unfinished_tasks (tts a') = 0 \<and> \<not> is_speaking (tts a'))
   \<and> (\<forall>a'. skill_exit eng a = Blocks a' \<longrightarrow> keep_running a' = keep_running a)
   \<and> (\<forall>a'. skill_exit eng a \<noteq> Raises a')"
proof -
  let ?t = "speak eng farewell False (tts a)"
  have 1: "tts_ok (tts a) \<longrightarrow>
      (\<exists>a'. skill_exit eng a = Returns a' \<and> \<not> keep_running a'
         \<and> speech_queue (tts a') = [] \<and> unfinished_tasks (tts a') = 0
         \<and> \<not> is_speaking (tts a') \<and> in_flight (speech_thread (tts a')) = []
         \<and> speech_log (tts a') = speech_log (tts a) @
              map (\<lambda>x. (x, synthesize eng x, True))
                (in_flight (speech_thread (tts a)) @ map the (speech_queue (tts a))
                   @ [farewell]))"
  proof
    assume ok: "tts_ok (tts a)"
    then have "tts_ok ?t" by (rule tts_ok_speak)
    moreover have "unfinished_tasks ?t \<noteq> 0" by (simp add: speak_def queue_put_def)
    ultimately have w: "wait_until_done eng ?t = Returns (drained eng ?t)"
      by (rule wait_until_done_drains)
    have "skill_exit eng a = Returns (a\<lparr>tts := drained eng ?t, keep_running := False\<rparr>)"
      using w by (simp add: skill_exit_def tts_speak_def Let_def)
    then show "\<exists>a'. skill_exit eng a = Returns a' \<and> \<not> keep_running a'
         \<and> speech_queue (tts a') = [] \<and> unfinished_tasks (tts a') = 0
         \<and> \<not> is_speaking (tts a') \<and> in_flight (speech_thread (tts a')) = []
         \<and> speech_log (tts a') = speech_log (tts a) @
              map (\<lambda>x. (x, synthesize eng x, True))
                (in_flight (speech_thread (tts a)) @ map the (speech_queue (tts a))
                   @ [farewell])"
      by (simp add: drained_def speak_def queue_put_def)
  qed
  have 2: "\<forall>a'. skill_exit eng a = Returns a' \<longrightarrow>
         \<not> keep_running a' \<and> unfinished_tasks (tts a') = 0 \<and> \<not> is_speaking (tts a')"
  proof (intro allI impI)
    fix a'
    assume r: "skill_exit eng a = Returns a'"
    then obtain t' where w: "wait_until_done eng ?t = Returns t'"
      and a': "a' = a\<lparr>tts := t', keep_running := False\<rparr>"
      by (auto simp: skill_exit_def tts_speak_def Let_def split: outcome.splits)
    from w have "unfinished_tasks t' = 0 \<and> \<not> is_speaking t'"
      by (rule wait_until_done_Returns)
    with a' show
      "\<not> keep_running a' \<and> unfinished_tasks (tts a') = 0 \<and> \<not> is_speaking (tts a')"
      by simp
  qed
  have 3: "\<forall>a'. skill_exit eng a = Blocks a' \<longrightarrow> keep_running a' = keep_running a"
    by (auto simp: skill_exit_def tts_speak_def Let_def split: outcome.splits)
  have 4: "\<forall>a'. skill_exit eng a \<noteq> Raises a'"
    by (auto simp: skill_exit_def Let_def wait_until_done_not_Raises split: outcome.splits)
  from 1 2 3 4 show ?thesis by (intro conjI)
qed

theorem skill_exit_order_witness:
  "tts_ok (tts (tts_speak example_engines ''Knock knock.'' (VoiceAssistant_init default_config)))
   \<and> (\<exists>a'. skill_exit example_engines
              (tts_speak example_engines ''Knock knock.'' (VoiceAssistant_init default_config))
            = Returns a'
         \<and> \<not> keep_running a' \<and> speech_queue (tts a') = []
         \<and> speech_log (tts a') =
             [(''Knock knock.'', synthesize example_engines ''Knock knock.'', True),
              (farewell, synthesize example_engines farewell, True)])"
proof -
  let ?a = "tts_speak example_engines ''Knock knock.'' (VoiceAssistant_init default_config)"
  let ?log = "speech_log (tts ?a) @
              map (\<lambda>x. (x, synthesize example_engines x, True))
                (in_flight (speech_thread (tts ?a)) @ map the (speech_queue (tts ?a))
                   @ [farewell])"
  have q: "speech_log (tts ?a) = []" "speech_thread (tts ?a) = At_loop_head"
    "speech_queue (tts ?a) = [Some ''Knock knock.'']"
    by (simp_all add: tts_speak_def speak_def queue_put_def VoiceAssistant_init_def
          PiperTTS_init_def)
  have h: "tts_ok (tts ?a)"
    by (simp add: tts_ok_def tts_speak_def speak_def queue_put_def VoiceAssistant_init_def
          PiperTTS_init_def)
  have e: "?log = [(''Knock knock.'', synthesize example_engines ''Knock knock.'', True),
              (farewell, synthesize example_engines farewell, True)]"
    unfolding q by simp
  have "tts_ok (tts ?a) \<longrightarrow>
      (\<exists>a'. skill_exit example_engines ?a = Returns a' \<and> \<not> keep_running a'
         \<and> speech_queue (tts a') = [] \<and> unfinished_tasks (tts a') = 0
         \<and> \<not> is_speaking (tts a') \<and> in_flight (speech_thread (tts a')) = []
         \<and> speech_log (tts a') = ?log)"
    using skill_exit_order[where a = ?a and eng = example_engines] by (rule conjunct1)
  with h obtain a' where A: "skill_exit example_engines ?a = Returns a' \<and> \<not> keep_running a'
         \<and> speech_queue (tts a') = [] \<and> unfinished_tasks (tts a') = 0
         \<and> \<not> is_speaking (tts a') \<and> in_flight (speech_thread (tts a')) = []
         \<and> speech_log (tts a') = ?log"
    by (elim impE exE)
  from A have B: "skill_exit example_engines ?a = Returns a' \<and> \<not> keep_running a'
     \<and> speech_queue (tts a') = []
     \<and> speech_log (tts a') =
             [(''Knock knock.'', synthesize example_engines ''Knock knock.'', True),
              (farewell, synthesize example_engines farewell, True)]"
    unfolding e by (elim conjE) (intro conjI)
  have "\<exists>a'. skill_exit example_engines ?a = Returns a' \<and> \<not> keep_running a'
     \<and> speech_queue (tts a') = []
     \<and> speech_log (tts a') =
             [(''Knock knock.'', synthesize example_engines ''Knock knock.'', True),
              (farewell, synthesize example_engines farewell, True)]"
  proof (rule exI[of _ a'])
    show "skill_exit example_engines ?a = Returns a' \<and> \<not> keep_running a'
     \<and> speech_queue (tts a') = []
     \<and> speech_log (tts a') =
             [(''Knock knock.'', synthesize example_engines ''Knock knock.'', True),
              (farewell, synthesize example_engines farewell, True)]"
      by (fact B)
  qed
  with h show ?thesis by (rule conjI)
qed

end
